theory Spec2Isabelle
  imports Main "HOL-Library.Char_ord" "HOL-Library.List_Lexorder" "HOL-Library.AList"
    "HOL-Library.Multiset"
begin

section \<open>Strings and formatting\<close>

text \<open>
  A Go \<open>string\<close> and a \<open>[]byte\<close> are byte sequences, modelled as \<^typ>\<open>string\<close>
  (a list of 8-bit characters). Go's \<open>int\<close> is 64 bits wide; the counters of this
  program (heading counts, line numbers, lengths) stay far below \<open>2^63\<close> for any input
  that fits in memory, so they are modelled as unbounded \<^typ>\<open>int\<close> and \<^typ>\<open>nat\<close>.
\<close>

definition LF :: char where
  "LF = CHR 0x0A"

definition CR :: char where
  "CR = CHR 0x0D"

definition digitChar :: "nat \<Rightarrow> char" where
  "digitChar n = char_of (48 + n)"

text \<open>The verb \<open>%d\<close> of \<open>fmt.Sprintf\<close>: decimal digits, with a minus sign when negative.\<close>

fun showNat :: "nat \<Rightarrow> string" where
  "showNat n = (if n < 10 then [digitChar n] else showNat (n div 10) @ [digitChar (n mod 10)])"

declare showNat.simps [simp del]

definition showInt :: "int \<Rightarrow> string" where
  "showInt i = (if i < 0 then ''-'' @ showNat (nat (- i)) else showNat (nat i))"

text \<open>\<open>strings.Repeat(s, n)\<close> for \<open>n \<ge> 0\<close>.\<close>

definition Repeat :: "string \<Rightarrow> nat \<Rightarrow> string" where
  "Repeat s n = concat (replicate n s)"

text \<open>
  \<open>strings.Replace(s, old, new, -1)\<close> where \<open>old\<close> is a one-byte string: every
  occurrence of that byte is replaced.
\<close>

definition ReplaceByte :: "string \<Rightarrow> char \<Rightarrow> string \<Rightarrow> string" where
  "ReplaceByte s old new = concat (map (\<lambda>c. if c = old then new else [c]) s)"

text \<open>
  \<open>strings.ToLower\<close>. On a string of ASCII bytes the library adds \<open>'a' - 'A'\<close> to each
  byte in \<open>'A'..'Z'\<close>; on any other string it maps the Unicode lower-case table over the
  decoded runes. That table is not part of this program: it is the parameter \<open>uni\<close>.
\<close>

definition isASCII :: "string \<Rightarrow> bool" where
  "isASCII s = list_all (\<lambda>c. (of_char c :: nat) < 128) s"

definition lowerByte :: "char \<Rightarrow> char" where
  "lowerByte c = (if CHR ''A'' \<le> c \<and> c \<le> CHR ''Z'' then char_of (of_char c + (32::nat)) else c)"

definition ToLower :: "(string \<Rightarrow> string) \<Rightarrow> string \<Rightarrow> string" where
  "ToLower uni s = (if isASCII s then map lowerByte s else uni s)"

section \<open>Slug generator\<close>

definition droppedChars :: "char list" where
  "droppedChars =
     [CHR 0x22, CHR 0x27, CHR 0x60, CHR ''.'',
      CHR ''!'', CHR '','', CHR ''~'', CHR ''&'',
      CHR ''%'', CHR ''^'', CHR ''*'', CHR ''#'',
      CHR ''@'', CHR ''|'',
      CHR ''('', CHR '')'',
      CHR ''{'', CHR ''}'',
      CHR ''['', CHR '']'']"

definition slugify :: "(string \<Rightarrow> string) \<Rightarrow> string \<Rightarrow> string" where
  "slugify uni s =
     ReplaceByte (foldl (\<lambda>s c. ReplaceByte s c []) (ToLower uni s) droppedChars)
       (CHR '' '') ''-''"

section \<open>Heading patterns\<close>

text \<open>
  \<open>rHashHeader = ^(?P<indent>#+) ?(?P<title>.+)$\<close>, matched against one line (which
  holds no line feed, so \<open>.\<close> matches every byte of it). The result is the pair of
  submatches \<open>(m[1], m[2])\<close> that the leftmost-first search returns: the run of \<open>#\<close> is
  taken greedily, then one space if there is one, then the rest as the title. The title
  needs one byte at least, so the search backs off: a lone space after the run is the
  title itself, and on a line of two or more \<open>#\<close> and nothing else the last \<open>#\<close> is the
  title. A single \<open>#\<close> alone does not match.
\<close>

definition matchHashHeader :: "string \<Rightarrow> (string \<times> string) option" where
  "matchHashHeader line =
     (let hashes = takeWhile (\<lambda>c. c = CHR ''#'') line;
          rest = dropWhile (\<lambda>c. c = CHR ''#'') line
      in if hashes = [] then None
         else if rest = [] then
           (if 2 \<le> length hashes then Some (butlast hashes, ''#'') else None)
         else if hd rest = CHR '' '' \<and> tl rest \<noteq> [] then Some (hashes, tl rest)
         else Some (hashes, rest))"

text \<open>\<open>rUnderscoreHeader1 = ^=+$\<close> and \<open>rUnderscoreHeader2 = ^\-+$\<close>.\<close>

definition matchUnderscoreHeader1 :: "string \<Rightarrow> bool" where
  "matchUnderscoreHeader1 line = (line \<noteq> [] \<and> list_all (\<lambda>c. c = CHR ''='') line)"

definition matchUnderscoreHeader2 :: "string \<Rightarrow> bool" where
  "matchUnderscoreHeader2 line = (line \<noteq> [] \<and> list_all (\<lambda>c. c = CHR ''-'') line)"

section \<open>Line scanner\<close>

text \<open>
  \<open>bufio.NewScanner(bytes.NewReader(d))\<close> with the default split function
  \<open>bufio.ScanLines\<close>. The reader never fails, so the only error of the scanner is
  \<open>bufio.ErrTooLong\<close>: the buffer grows to \<open>bufio.MaxScanTokenSize = 64 * 1024\<close> bytes
  and no further, and a line must fit in it together with its line feed; an unterminated
  last line must leave one byte free, since the scanner reads on until it sees the end
  of input. Either way the bytes before the line feed must number fewer than 65536.
  A token is the line without its line feed and without one trailing carriage return.
  An empty rest ends the scan.
\<close>

datatype error = ErrTooLong

datatype scan_result = Token string string | AtEOF | ScanFailed error

definition maxScanTokenSize :: nat where
  "maxScanTokenSize = 64 * 1024"

definition dropCR :: "string \<Rightarrow> string" where
  "dropCR data = (if data \<noteq> [] \<and> last data = CR then butlast data else data)"

definition Scan :: "string \<Rightarrow> scan_result" where
  "Scan buf =
     (if buf = [] then AtEOF
      else let seg = takeWhile (\<lambda>c. c \<noteq> LF) buf
           in if maxScanTokenSize \<le> length seg then ScanFailed ErrTooLong
              else Token (dropCR seg) (drop (length seg + 1) buf))"

section \<open>Table of contents builder\<close>

text \<open>
  The local variables of \<open>BuildMarkdownToc\<close> that the closure \<open>appendToC\<close> and the loop
  share: the slice \<open>toc\<close>, the map \<open>seenHeaders\<close>, \<open>previousLine\<close>, and the
  parameter \<open>skipHeaders\<close>, which the closure decrements.
\<close>

record toc_state =
  toc :: "string list"
  seenHeaders :: "string \<rightharpoonup> int"
  previousLine :: string
  skipHeaders :: int

text \<open>\<open>fmt.Sprintf("%s1. [%s](#%s)", strings.Repeat("   ", indent), title, link)\<close>\<close>

definition tocLine :: "nat \<Rightarrow> string \<Rightarrow> string \<Rightarrow> string" where
  "tocLine indent title link =
     Repeat ''   '' indent @ ''1. ['' @ title @ ''](#'' @ link @ '')''"

definition appendToC :: "(string \<Rightarrow> string) \<Rightarrow> string \<Rightarrow> nat \<Rightarrow> toc_state \<Rightarrow> toc_state" where
  "appendToC uni title indent st =
     (let link = slugify uni title
      in if 0 < skipHeaders st then st\<lparr>skipHeaders := skipHeaders st - 1\<rparr>
         else
           (case seenHeaders st link of
              Some n \<Rightarrow>
                st\<lparr>seenHeaders := (seenHeaders st)(link \<mapsto> n + 1),
                   toc := toc st @ [tocLine indent title (link @ ''-'' @ showInt (n + 1 - 1))]\<rparr>
            | None \<Rightarrow>
                st\<lparr>seenHeaders := (seenHeaders st)(link \<mapsto> 1),
                   toc := toc st @ [tocLine indent title link]\<rparr>))"

text \<open>
  One pass through the body of the \<open>for s.Scan()\<close> loop. A \<open>continue\<close> leaves the body
  before \<open>previousLine = s.Text()\<close>, so the state is returned as it was.
\<close>

definition scanStep :: "(string \<Rightarrow> string) \<Rightarrow> int \<Rightarrow> toc_state \<Rightarrow> string \<Rightarrow> toc_state" where
  "scanStep uni depth st line =
     (case matchHashHeader line of
        Some (m1, m2) \<Rightarrow>
          if 0 < depth \<and> depth < int (length m1) then st
          else (appendToC uni m2 (length m1 - 1) st)\<lparr>previousLine := line\<rparr>
      | None \<Rightarrow>
          if matchUnderscoreHeader1 line then
            (appendToC uni (previousLine st) 0 st)\<lparr>previousLine := line\<rparr>
          else if matchUnderscoreHeader2 line then
            (if 0 < depth \<and> depth < 2 then st
             else (appendToC uni (previousLine st) 1 st)\<lparr>previousLine := line\<rparr>)
          else st\<lparr>previousLine := line\<rparr>)"

function scanLoop :: "(string \<Rightarrow> string) \<Rightarrow> int \<Rightarrow> string \<Rightarrow> toc_state \<Rightarrow> toc_state \<times> error option" where
  "scanLoop uni depth buf st =
     (case Scan buf of
        Token line rest \<Rightarrow> scanLoop uni depth rest (scanStep uni depth st line)
      | AtEOF \<Rightarrow> (st, None)
      | ScanFailed err \<Rightarrow> (st, Some err))"
  by pat_completeness auto
termination
  by (relation "measure (\<lambda>(uni, depth, buf, st). length buf)") (auto simp: Scan_def Let_def split: if_splits)

declare scanLoop.simps [simp del]

definition initialState :: "int \<Rightarrow> toc_state" where
  "initialState skip =
     \<lparr>toc = [''Table of Contents'', ''=================''],
      seenHeaders = Map.empty, previousLine = [], skipHeaders = skip\<rparr>"

text \<open>
  The result is the pair that the Go function returns: the slice and the error, \<open>None\<close>
  for \<open>nil\<close>.
\<close>

definition BuildMarkdownToc ::
  "(string \<Rightarrow> string) \<Rightarrow> string \<Rightarrow> int \<Rightarrow> int \<Rightarrow> string list \<times> error option" where
  "BuildMarkdownToc uni d depth skip =
     (case scanLoop uni depth d (initialState skip) of
        (st, Some err) \<Rightarrow> ([], Some err)
      | (st, None) \<Rightarrow> (toc st, None))"

text \<open>
  The tokens that the scanner alone hands out on a document, and the error it ends with,
  as a loop \<open>for s.Scan() { lines = append(lines, s.Text()) }\<close> would collect them.
  The theorems below name the lines of a document through this function.
\<close>

function scanAll :: "string \<Rightarrow> string list \<times> error option" where
  "scanAll buf =
     (case Scan buf of
        Token line rest \<Rightarrow> (line # fst (scanAll rest), snd (scanAll rest))
      | AtEOF \<Rightarrow> ([], None)
      | ScanFailed err \<Rightarrow> ([], Some err))"
  by pat_completeness auto
termination
  by (relation "measure length") (auto simp: Scan_def Let_def split: if_splits)

declare scanAll.simps [simp del]

text \<open>
  The lines on which the loop body leaves through \<open>continue\<close>: a \<open>#\<close> heading deeper than
  a positive \<open>depth\<close>, and a line of \<open>-\<close> when \<open>depth\<close> is 1.
\<close>

definition depthFiltered :: "int \<Rightarrow> string \<Rightarrow> bool" where
  "depthFiltered depth line =
     (case matchHashHeader line of
        Some (m1, m2) \<Rightarrow> 0 < depth \<and> depth < int (length m1)
      | None \<Rightarrow> \<not> matchUnderscoreHeader1 line \<and> matchUnderscoreHeader2 line
                  \<and> 0 < depth \<and> depth < 2)"

text \<open>
  The calls \<open>appendToC(title, indent)\<close> that the loop body makes on one line when
  \<open>previousLine\<close> holds \<open>prev\<close> (one call or none), and the value of \<open>previousLine\<close>
  after the body. Neither depends on \<open>skipHeaders\<close> or on the map.
\<close>

definition lineCalls :: "int \<Rightarrow> string \<Rightarrow> string \<Rightarrow> (string \<times> nat) list" where
  "lineCalls depth prev line =
     (case matchHashHeader line of
        Some (m1, m2) \<Rightarrow>
          if 0 < depth \<and> depth < int (length m1) then [] else [(m2, length m1 - 1)]
      | None \<Rightarrow>
          if matchUnderscoreHeader1 line then [(prev, 0)]
          else if matchUnderscoreHeader2 line then
            (if 0 < depth \<and> depth < 2 then [] else [(prev, 1)])
          else [])"

definition nextPrevious :: "int \<Rightarrow> string \<Rightarrow> string \<Rightarrow> string" where
  "nextPrevious depth prev line = (if depthFiltered depth line then prev else line)"

text \<open>
  The calls of \<open>appendToC\<close> over a sequence of lines, in order: the headings that pass
  the depth filter.
\<close>

fun headingCalls :: "int \<Rightarrow> string \<Rightarrow> string list \<Rightarrow> (string \<times> nat) list" where
  "headingCalls depth prev [] = []"
| "headingCalls depth prev (line # ls) =
     lineCalls depth prev line @ headingCalls depth (nextPrevious depth prev line) ls"

text \<open>Emitting a sequence of headings: one call of \<open>appendToC\<close> for each.\<close>

definition emitAll :: "(string \<Rightarrow> string) \<Rightarrow> toc_state \<Rightarrow> (string \<times> nat) list \<Rightarrow> toc_state" where
  "emitAll uni st hs = foldl (\<lambda>st (title, indent). appendToC uni title indent st) st hs"

section \<open>Table renderer\<close>

text \<open>
  \<open>regexp.MustCompile(`\r?\n`).ReplaceAllString(cellText, "<br>")\<close>: the matches are
  found from left to right and do not overlap; a carriage return is part of a match only
  when a line feed follows it directly. The replacement holds no \<open>$\<close>, so it is copied
  as it is.
\<close>

fun MarkdownTableCellEscape :: "string \<Rightarrow> string" where
  "MarkdownTableCellEscape [] = []"
| "MarkdownTableCellEscape [c] = (if c = LF then ''<br>'' else [c])"
| "MarkdownTableCellEscape (c # d # cs) =
     (if c = LF then ''<br>'' @ MarkdownTableCellEscape (d # cs)
      else if c = CR \<and> d = LF then ''<br>'' @ MarkdownTableCellEscape cs
      else c # MarkdownTableCellEscape (d # cs))"

text \<open>The three loops of \<open>MarkdownTable\<close>, each appending to \<open>table\<close>.\<close>

definition MarkdownTable :: "string list \<Rightarrow> string list \<Rightarrow> string list list \<Rightarrow> string" where
  "MarkdownTable headings lengths data =
     (let table = ''|'';
          table = foldl (\<lambda>table h. table @ '' '' @ h @ '' |'') table headings;
          table = table @ [LF] @ ''|'';
          table = foldl (\<lambda>table l. table @ '' '' @ l @ '' |'') table lengths
      in foldl (\<lambda>table d.
                 foldl (\<lambda>table val. table @ '' '' @ MarkdownTableCellEscape val @ '' |'')
                   (table @ [LF] @ ''|'') d)
           table data)"

text \<open>
  \<open>strings.Split(s, sep)\<close> for a one-byte separator: the pieces between the separators,
  one piece at least. It also gives the text lines of a rendered table.
\<close>

fun Split :: "string \<Rightarrow> char \<Rightarrow> string list" where
  "Split [] sep = [[]]"
| "Split (c # cs) sep =
     (if c = sep then [] # Split cs sep
      else (case Split cs sep of
              piece # pieces \<Rightarrow> (c # piece) # pieces
            | [] \<Rightarrow> [[c]]))"

section \<open>Extraction\<close>

text \<open>
  The types of \<open>tfconfig\<close> that the extraction functions read, with the fields they read.
  The fields of \<open>Module\<close> are Go maps, iterated with \<open>range\<close> in an order the language
  leaves open: each is modelled as the list of its values in the order one run of the
  loop visits them.
\<close>

record SourcePos =
  Filename :: string
  Line :: int

record Variable =
  var_Name :: string
  var_Type :: string
  var_Description :: string
  var_Pos :: SourcePos

record Output =
  out_Name :: string
  out_Description :: string
  out_Pos :: SourcePos

record Resource =
  res_Name :: string
  res_Type :: string
  res_Pos :: SourcePos

record ModuleCall =
  call_Name :: string
  call_Source :: string
  call_Version :: string
  call_Pos :: SourcePos

record Module =
  Variables :: "Variable list"
  Outputs :: "Output list"
  ManagedResources :: "Resource list"
  DataResources :: "Resource list"
  ModuleCalls :: "ModuleCall list"

record TfTableObject =
  Name :: string
  Type :: string
  Description :: string
  Location :: string

text \<open>
  The cell \<open>fmt.Sprintf("[%s: %d](%s/%s/%s#L%d)", tffile, line, baseUrl, modulePath,
  tffile, line)\<close>, where \<open>tffile\<close> is the last piece of the file name split at \<open>/\<close>.
\<close>

definition location :: "SourcePos \<Rightarrow> string \<Rightarrow> string \<Rightarrow> string" where
  "location pos baseUrl modulePath =
     (let tfpathbits = Split (Filename pos) (CHR ''/'');
          tffile = last tfpathbits
      in ''['' @ tffile @ '': '' @ showInt (Line pos) @ ''](''
           @ baseUrl @ ''/'' @ modulePath @ ''/'' @ tffile @ ''#L'' @ showInt (Line pos) @ '')'')"

text \<open>
  The map \<open>objs\<close> is an association list with one entry for each key; \<open>objs[k]\<close> on a
  missing key is the zero value. \<open>getSortedKeys\<close> collects the keys in the order of a
  \<open>range\<close> loop and sorts them with \<open>sort.Strings\<close>, byte-wise lexicographically.
\<close>

definition index :: "(string \<times> TfTableObject) list \<Rightarrow> string \<Rightarrow> TfTableObject" where
  "index objs k =
     (case map_of objs k of
        Some obj \<Rightarrow> obj
      | None \<Rightarrow> \<lparr>Name = [], Type = [], Description = [], Location = []\<rparr>)"

definition getSortedKeys :: "(string \<times> TfTableObject) list \<Rightarrow> string list" where
  "getSortedKeys objs = sort (foldl (\<lambda>keys (k, obj). keys @ [k]) [] objs)"

text \<open>
  The two loops that all five table functions share: the first fills \<open>objs\<close> from the
  items, the second appends one row for each sorted key.
\<close>

definition makeObjs ::
  "('a \<Rightarrow> string) \<Rightarrow> ('a \<Rightarrow> TfTableObject) \<Rightarrow> 'a list \<Rightarrow> (string \<times> TfTableObject) list" where
  "makeObjs name obj items =
     foldl (\<lambda>objs item. AList.update (name item) (obj item) objs) [] items"

definition makeData ::
  "(TfTableObject \<Rightarrow> string list) \<Rightarrow> (string \<times> TfTableObject) list \<Rightarrow> string list list" where
  "makeData row objs = foldl (\<lambda>data k. data @ [row (index objs k)]) [] (getSortedKeys objs)"

definition VarsData :: "Module \<Rightarrow> string \<Rightarrow> string \<Rightarrow> string list list" where
  "VarsData module baseUrl modulePath =
     makeData (\<lambda>obj. [Name obj, Type obj, Description obj, Location obj])
       (makeObjs var_Name
          (\<lambda>item. \<lparr>Name = var_Name item, Type = var_Type item,
                    Description = var_Description item,
                    Location = location (var_Pos item) baseUrl modulePath\<rparr>)
          (Variables module))"

definition GetVarsTable :: "Module \<Rightarrow> string \<Rightarrow> string \<Rightarrow> string" where
  "GetVarsTable module baseUrl modulePath =
     MarkdownTable [''Variable'', ''Type'', ''Description'', ''Code Position'']
       [''----'', ''------'', ''--------'', ''------'']
       (VarsData module baseUrl modulePath)"

definition OutputsData :: "Module \<Rightarrow> string \<Rightarrow> string \<Rightarrow> string list list" where
  "OutputsData module baseUrl modulePath =
     makeData (\<lambda>obj. [Name obj, Description obj, Location obj])
       (makeObjs out_Name
          (\<lambda>item. \<lparr>Name = out_Name item, Type = [],
                    Description = out_Description item,
                    Location = location (out_Pos item) baseUrl modulePath\<rparr>)
          (Outputs module))"

definition GetOutputsTable :: "Module \<Rightarrow> string \<Rightarrow> string \<Rightarrow> string" where
  "GetOutputsTable module baseUrl modulePath =
     MarkdownTable [''Output name'', ''Description'', ''Code Position'']
       [''----'', ''--------'', ''------'']
       (OutputsData module baseUrl modulePath)"

definition resourceObjs ::
  "Resource list \<Rightarrow> string \<Rightarrow> string \<Rightarrow> (string \<times> TfTableObject) list" where
  "resourceObjs items baseUrl modulePath =
     makeObjs res_Name
       (\<lambda>item. \<lparr>Name = res_Name item, Type = res_Type item, Description = [],
                 Location = location (res_Pos item) baseUrl modulePath\<rparr>)
       items"

definition ManagedResourcesData :: "Module \<Rightarrow> string \<Rightarrow> string \<Rightarrow> string list list" where
  "ManagedResourcesData module baseUrl modulePath =
     makeData (\<lambda>obj. [Name obj, Type obj, Location obj])
       (resourceObjs (ManagedResources module) baseUrl modulePath)"

definition GetManagedResourcesTable :: "Module \<Rightarrow> string \<Rightarrow> string \<Rightarrow> string" where
  "GetManagedResourcesTable module baseUrl modulePath =
     MarkdownTable [''Resource Name'', ''Resource Type'', ''Code Position'']
       [''----'', ''--------'', ''------'']
       (ManagedResourcesData module baseUrl modulePath)"

definition DataSourcesData :: "Module \<Rightarrow> string \<Rightarrow> string \<Rightarrow> string list list" where
  "DataSourcesData module baseUrl modulePath =
     makeData (\<lambda>obj. [Name obj, Type obj, Location obj])
       (resourceObjs (DataResources module) baseUrl modulePath)"

definition GetDataSourcesTable :: "Module \<Rightarrow> string \<Rightarrow> string \<Rightarrow> string" where
  "GetDataSourcesTable module baseUrl modulePath =
     MarkdownTable [''Resource Name'', ''Resource Type'', ''Code Position'']
       [''----'', ''--------'', ''------'']
       (DataSourcesData module baseUrl modulePath)"

definition ModulesData :: "Module \<Rightarrow> string \<Rightarrow> string \<Rightarrow> string list list" where
  "ModulesData module baseUrl modulePath =
     makeData (\<lambda>obj. [Name obj, Type obj, Location obj])
       (makeObjs call_Name
          (\<lambda>item. \<lparr>Name = call_Name item, Type = call_Source item,
                    Description = call_Version item,
                    Location = location (call_Pos item) baseUrl modulePath\<rparr>)
          (ModuleCalls module))"

definition GetModulesTable :: "Module \<Rightarrow> string \<Rightarrow> string \<Rightarrow> string" where
  "GetModulesTable module baseUrl modulePath =
     MarkdownTable [''Module Name'', ''Module Source'', ''Module Location'']
       [''----'', ''--------'', ''------'']
       (ModulesData module baseUrl modulePath)"

text \<open>An example module: variables in one file, given by name and line.\<close>

definition exampleVar :: "string \<Rightarrow> int \<Rightarrow> Variable" where
  "exampleVar n l =
     \<lparr>var_Name = n, var_Type = ''string'', var_Description = [],
      var_Pos = \<lparr>Filename = ''mod/vars.tf'', Line = l\<rparr>\<rparr>"

definition exampleModule :: "Variable list \<Rightarrow> Module" where
  "exampleModule vs =
     \<lparr>Variables = vs, Outputs = [], ManagedResources = [], DataResources = [],
      ModuleCalls = []\<rparr>"

text \<open>
  An example module of managed resources in one file, given by type, name and line. In
  \<open>tfconfig\<close> the map of resources is keyed by type and name together, so two resources
  of different types may have the same name.
\<close>

definition exampleResource :: "string \<Rightarrow> string \<Rightarrow> int \<Rightarrow> Resource" where
  "exampleResource ty n l =
     \<lparr>res_Name = n, res_Type = ty, res_Pos = \<lparr>Filename = ''main.tf'', Line = l\<rparr>\<rparr>"

definition resourceModule :: "Resource list \<Rightarrow> Module" where
  "resourceModule rs =
     \<lparr>Variables = [], Outputs = [], ManagedResources = rs, DataResources = [],
      ModuleCalls = []\<rparr>"

section \<open>The loop as a fold over the scanned lines\<close>

lemma scanLoop_scanAll:
  "scanLoop uni depth buf st = (foldl (scanStep uni depth) st (fst (scanAll buf)), snd (scanAll buf))"
proof (induction uni depth buf st rule: scanLoop.induct)
  case (1 uni depth buf st)
  show ?case
  proof (cases "Scan buf")
    case (Token line rest)
    with "1" show ?thesis
      by (subst scanLoop.simps, subst (1 2) scanAll.simps) simp
  next
    case AtEOF
    then show ?thesis
      by (subst scanLoop.simps, subst (1 2) scanAll.simps) simp
  next
    case (ScanFailed err)
    then show ?thesis
      by (subst scanLoop.simps, subst (1 2) scanAll.simps) simp
  qed
qed

lemma BuildMarkdownToc_lines:
  "snd (scanAll d) = None \<Longrightarrow>
   BuildMarkdownToc uni d depth skip =
     (toc (foldl (scanStep uni depth) (initialState skip) (fst (scanAll d))), None)"
  by (simp add: BuildMarkdownToc_def scanLoop_scanAll)

lemma BuildMarkdownToc_failed:
  "snd (scanAll d) = Some err \<Longrightarrow> BuildMarkdownToc uni d depth skip = ([], Some err)"
  by (simp add: BuildMarkdownToc_def scanLoop_scanAll)

lemma appendToC_previousLine:
  "appendToC uni title indent (st\<lparr>previousLine := p\<rparr>) =
   (appendToC uni title indent st)\<lparr>previousLine := p\<rparr>"
  by (simp add: appendToC_def Let_def split: option.splits)

lemma emitAll_previousLine:
  "emitAll uni (st\<lparr>previousLine := p\<rparr>) hs = (emitAll uni st hs)\<lparr>previousLine := p\<rparr>"
  unfolding emitAll_def
  by (induction hs arbitrary: st) (auto simp: appendToC_previousLine)

lemma emitAll_Cons:
  "emitAll uni st ((title, indent) # hs) = emitAll uni (appendToC uni title indent st) hs"
  by (simp add: emitAll_def)

lemma emitAll_Nil: "emitAll uni st [] = st"
  by (simp add: emitAll_def)

lemma emitAll_append:
  "emitAll uni st (xs @ ys) = emitAll uni (emitAll uni st xs) ys"
  by (simp add: emitAll_def)

lemma scanStep_calls:
  "scanStep uni depth st l =
   (emitAll uni st (lineCalls depth (previousLine st) l))
     \<lparr>previousLine := nextPrevious depth (previousLine st) l\<rparr>"
  by (auto simp: scanStep_def lineCalls_def nextPrevious_def depthFiltered_def
      emitAll_Cons emitAll_Nil split: option.splits)

lemma previousLine_appendToC:
  "previousLine (appendToC uni title indent st) = previousLine st"
  by (simp add: appendToC_def Let_def split: option.splits)

lemma previousLine_emitAll: "previousLine (emitAll uni st hs) = previousLine st"
  unfolding emitAll_def
  by (induction hs arbitrary: st) (auto simp: previousLine_appendToC)

lemma scan_headingCalls:
  "foldl (scanStep uni depth) st ls =
   (emitAll uni st (headingCalls depth (previousLine st) ls))
     \<lparr>previousLine := foldl (nextPrevious depth) (previousLine st) ls\<rparr>"
proof (induction ls arbitrary: st)
  case Nil
  show ?case by (simp add: emitAll_Nil)
next
  case (Cons l ls)
  show ?case
    by (simp add: Cons.IH [of "scanStep uni depth st l"])
      (simp add: scanStep_calls emitAll_previousLine emitAll_append)
qed

lemma toc_scan_headingCalls:
  "toc (foldl (scanStep uni depth) st ls) =
   toc (emitAll uni st (headingCalls depth (previousLine st) ls))"
  by (simp add: scan_headingCalls)

lemma appendToC_skip_nonpos:
  "skipHeaders st \<le> 0 \<Longrightarrow>
   appendToC uni title indent (st\<lparr>skipHeaders := 0\<rparr>) =
   (appendToC uni title indent st)\<lparr>skipHeaders := 0\<rparr>"
  by (simp add: appendToC_def Let_def split: option.splits)

lemma appendToC_skip_pos:
  "0 < skipHeaders st \<Longrightarrow>
   appendToC uni title indent st = st\<lparr>skipHeaders := skipHeaders st - 1\<rparr>"
  by (simp add: appendToC_def Let_def)

lemma skipHeaders_appendToC_nonpos:
  "skipHeaders st \<le> 0 \<Longrightarrow> skipHeaders (appendToC uni title indent st) = skipHeaders st"
  by (simp add: appendToC_def Let_def split: option.splits)

lemma emitAll_skip:
  "toc (emitAll uni st hs) =
   toc (emitAll uni (st\<lparr>skipHeaders := 0\<rparr>) (drop (nat (skipHeaders st)) hs))"
proof (induction hs arbitrary: st)
  case Nil
  then show ?case by (simp add: emitAll_Nil)
next
  case (Cons h hs)
  obtain title indent where h: "h = (title, indent)" by (cases h)
  show ?case
  proof (cases "0 < skipHeaders st")
    case True
    then have "nat (skipHeaders st) = Suc (nat (skipHeaders st - 1))" by simp
    then show ?thesis
      using Cons.IH [of "st\<lparr>skipHeaders := skipHeaders st - 1\<rparr>"] True
      by (simp add: h emitAll_Cons appendToC_skip_pos)
  next
    case False
    then have le: "skipHeaders st \<le> 0" by simp
    show ?thesis
      using Cons.IH [of "appendToC uni title indent st"] le
      by (simp add: h emitAll_Cons appendToC_skip_nonpos skipHeaders_appendToC_nonpos)
  qed
qed

text \<open>Facts for evaluating the scanner and the loop body on concrete lines.\<close>

lemmas scan_ev = Scan_def maxScanTokenSize_def dropCR_def LF_def CR_def Let_def

lemmas step_ev = initialState_def scanStep_def
  matchHashHeader_def matchUnderscoreHeader1_def matchUnderscoreHeader2_def appendToC_def
  slugify_def ToLower_def isASCII_def lowerByte_def droppedChars_def ReplaceByte_def
  tocLine_def Repeat_def showInt_def showNat.simps digitChar_def
  Let_def char_of_def bit_Suc_0_iff

section \<open>Scan errors\<close>

text \<open>
  Claim C9. When the line iteration over the document fails, \<open>BuildMarkdownToc\<close> returns
  the error together with the empty slice: none of the entries appended before the
  failure is returned. When the iteration reaches the end of the document, the error is
  nil and the slice is the table of contents that the loop built.
\<close>

theorem BuildMarkdownToc_scan_error:
  "(snd (scanAll d) = Some err \<longrightarrow> BuildMarkdownToc uni d depth skip = ([], Some err)) \<and>
   (snd (scanAll d) = None \<longrightarrow>
      BuildMarkdownToc uni d depth skip =
        (toc (foldl (scanStep uni depth) (initialState skip) (fst (scanAll d))), None))"
  by (simp add: BuildMarkdownToc_def scanLoop_scanAll)

lemma scanAll_long:
  "scanAll (''# A\<newline>'' @ replicate 65536 (CHR ''a'')) = ([''# A''], Some ErrTooLong)"
  by (simp add: scanAll.simps scan_ev)

lemma scanAll_short: "scanAll ''# A\<newline>'' = ([''# A''], None)"
  by (simp add: scanAll.simps scan_ev)

text \<open>
  A heading followed by a line of 65536 bytes: the heading is scanned, the long line
  fails, and nothing is returned. The heading alone gives its entry.
\<close>

theorem BuildMarkdownToc_scan_error_witness:
  "snd (scanAll (''# A\<newline>'' @ replicate 65536 (CHR ''a''))) = Some ErrTooLong \<and>
   BuildMarkdownToc id (''# A\<newline>'' @ replicate 65536 (CHR ''a'')) 0 0 = ([], Some ErrTooLong) \<and>
   snd (scanAll ''# A\<newline>'') = None \<and>
   BuildMarkdownToc id ''# A\<newline>'' 0 0 =
     ([''Table of Contents'', ''================='', ''1. [A](#a)''], None)"
proof -
  have t: "toc (foldl (scanStep id 0) (initialState 0) [''# A'']) =
      [''Table of Contents'', ''================='', ''1. [A](#a)'']"
    by (simp add: step_ev)
  show ?thesis
    using BuildMarkdownToc_scan_error [of "''# A\<newline>'' @ replicate 65536 (CHR ''a'')" ErrTooLong id 0 0]
      BuildMarkdownToc_scan_error [of "''# A\<newline>''" ErrTooLong id 0 0]
    by (simp only: scanAll_long scanAll_short t fst_conv snd_conv simp_thms)
qed

section \<open>Slug collisions\<close>

lemma lines_intro_dup:
  "scanAll ''# Intro\<newline># Intro\<newline># Intro-1\<newline>'' =
     ([''# Intro'', ''# Intro'', ''# Intro-1''], None)"
  by (simp add: scanAll.simps scan_ev)

text \<open>
  Claim C1 says that no two entries of one call carry the same anchor. The map
  \<open>seenHeaders\<close> records only the slugs as \<open>slugify\<close> returns them, never a slug with
  its suffix: on the headings \<open>Intro\<close>, \<open>Intro\<close>, \<open>Intro-1\<close> the second entry gets the
  anchor \<open>intro-1\<close> by suffix, and the third gets \<open>intro-1\<close> as a slug not seen before.
\<close>

theorem duplicate_slug_emitted:
  "BuildMarkdownToc id ''# Intro\<newline># Intro\<newline># Intro-1\<newline>'' 0 0 =
     ([''Table of Contents'', ''================='',
       ''1. [Intro](#intro)'', ''1. [Intro](#intro-1)'', ''1. [Intro-1](#intro-1)''], None)"
proof -
  have "toc (foldl (scanStep id 0) (initialState 0) [''# Intro'', ''# Intro'', ''# Intro-1'']) =
      [''Table of Contents'', ''================='',
       ''1. [Intro](#intro)'', ''1. [Intro](#intro-1)'', ''1. [Intro-1](#intro-1)'']"
    by (simp add: step_ev)
  then show ?thesis
    by (simp add: BuildMarkdownToc_lines lines_intro_dup)
qed

lemma initialState_skip0: "(initialState skip)\<lparr>skipHeaders := 0\<rparr> = initialState 0"
  by (simp add: initialState_def)

lemma previousLine_initialState: "previousLine (initialState skip) = []"
  by (simp add: initialState_def)

lemma BuildMarkdownToc_headingCalls:
  "snd (scanAll d) = None \<Longrightarrow>
   BuildMarkdownToc uni d depth skip =
     (toc (emitAll uni (initialState 0)
        (drop (nat skip) (headingCalls depth [] (fst (scanAll d))))), None)"
  using emitAll_skip [of uni "initialState skip" "headingCalls depth [] (fst (scanAll d))"]
  by (simp add: BuildMarkdownToc_lines toc_scan_headingCalls previousLine_initialState
      initialState_skip0) (simp add: initialState_def)

lemma showInt_1: "showInt 1 = ''1''"
  by (simp add: showInt_def showNat.simps digitChar_def char_of_def bit_Suc_0_iff)




lemmas calls_ev = lineCalls_def nextPrevious_def depthFiltered_def
  matchHashHeader_def matchUnderscoreHeader1_def matchUnderscoreHeader2_def Let_def




section \<open>Skipped headings\<close>

text \<open>
  Claim C5. With \<open>skipCount = N\<close> the table of contents is the one that the headings
  after the first \<open>N\<close> of those passing the depth filter give from a fresh state with an
  empty map: the first \<open>N\<close> are absent, and they leave no trace in the map, so a
  later heading of the same title gets the slug without a suffix.
\<close>

theorem skip_count:
  assumes "snd (scanAll d) = None"
  shows "BuildMarkdownToc uni d depth skip =
     (toc (emitAll uni (initialState 0)
        (drop (nat skip) (headingCalls depth [] (fst (scanAll d))))), None)"
  using assms by (rule BuildMarkdownToc_headingCalls)

lemma lines_intro2:
  "scanAll ''# Intro\<newline># Intro\<newline>'' = ([''# Intro'', ''# Intro''], None)"
  by (simp add: scanAll.simps scan_ev)

text \<open>
  Two headings \<open>Intro\<close>: with one skipped, the second gets \<open>intro\<close>; with none skipped
  it gets \<open>intro-1\<close>.
\<close>

theorem skip_count_witness:
  "snd (scanAll ''# Intro\<newline># Intro\<newline>'') = None \<and>
   BuildMarkdownToc id ''# Intro\<newline># Intro\<newline>'' 0 1 =
     ([''Table of Contents'', ''================='', ''1. [Intro](#intro)''], None) \<and>
   BuildMarkdownToc id ''# Intro\<newline># Intro\<newline>'' 0 0 =
     ([''Table of Contents'', ''================='', ''1. [Intro](#intro)'',
       ''1. [Intro](#intro-1)''], None)"
proof -
  have c: "headingCalls 0 [] [''# Intro'', ''# Intro''] = [(''Intro'', 0), (''Intro'', 0)]"
    by (simp add: calls_ev)
  have e1: "toc (emitAll id (initialState 0) [(''Intro'', 0)]) =
      [''Table of Contents'', ''================='', ''1. [Intro](#intro)'']"
    by (simp add: emitAll_Cons emitAll_Nil step_ev)
  have e2: "toc (emitAll id (initialState 0) [(''Intro'', 0), (''Intro'', 0)]) =
      [''Table of Contents'', ''================='', ''1. [Intro](#intro)'',
       ''1. [Intro](#intro-1)'']"
    by (simp add: emitAll_Cons emitAll_Nil step_ev)
  show ?thesis
    using skip_count [of "''# Intro\<newline># Intro\<newline>''" id 0 1]
      skip_count [of "''# Intro\<newline># Intro\<newline>''" id 0 0]
    by (simp add: lines_intro2 c e1 e2 del: headingCalls.simps)
qed

section \<open>Underlined headings\<close>

lemma matchHashHeader_underscore1:
  "matchUnderscoreHeader1 e \<Longrightarrow> matchHashHeader e = None"
  by (cases e) (auto simp: matchUnderscoreHeader1_def matchHashHeader_def)

lemma scanStep_underscore1:
  "matchUnderscoreHeader1 e \<Longrightarrow>
   scanStep uni depth st e = (appendToC uni (previousLine st) 0 st)\<lparr>previousLine := e\<rparr>"
  by (simp add: scanStep_def matchHashHeader_underscore1)

lemma previousLine_scan:
  "previousLine (foldl (scanStep uni depth) st ls) = foldl (nextPrevious depth) (previousLine st) ls"
  by (simp add: scan_headingCalls)

lemma toc_appendToC_take:
  "take (length (toc st)) (toc (appendToC uni title indent st)) = toc st"
  by (simp add: appendToC_def Let_def split: option.splits)

lemma length_toc_appendToC:
  "length (toc st) \<le> length (toc (appendToC uni title indent st))"
  by (simp add: appendToC_def Let_def split: option.splits)

lemma toc_emitAll_take:
  "n \<le> length (toc st) \<Longrightarrow> take n (toc (emitAll uni st hs)) = take n (toc st)"
proof (induction hs arbitrary: st)
  case Nil
  then show ?case by (simp add: emitAll_Nil)
next
  case (Cons h hs)
  obtain title indent where h: "h = (title, indent)" by (cases h)
  have "n \<le> length (toc (appendToC uni title indent st))"
    using Cons.prems length_toc_appendToC [of st uni title indent] by simp
  then have "take n (toc (emitAll uni (appendToC uni title indent st) hs)) =
      take n (toc (appendToC uni title indent st))"
    by (rule Cons.IH)
  also have "\<dots> = take n (take (length (toc st)) (toc (appendToC uni title indent st)))"
    using Cons.prems by (simp add: min_def)
  also have "\<dots> = take n (toc st)"
    by (simp only: toc_appendToC_take)
  finally show ?case by (simp add: h emitAll_Cons)
qed

lemma toc_scan_take:
  "n \<le> length (toc st) \<Longrightarrow> take n (toc (foldl (scanStep uni depth) st ls)) = take n (toc st)"
  by (simp add: toc_scan_headingCalls toc_emitAll_take)

lemma slugify_Nil: "slugify uni [] = []"
  by (simp add: slugify_def ToLower_def isASCII_def droppedChars_def ReplaceByte_def)

lemma first_underscore1:
  assumes "matchUnderscoreHeader1 e" and "skip \<le> 0"
  shows "take 3 (toc (foldl (scanStep uni depth) (initialState skip) (e # rest))) =
     [''Table of Contents'', ''================='', ''1. [](#)'']"
proof -
  have "toc (scanStep uni depth (initialState skip) e) =
      [''Table of Contents'', ''================='', ''1. [](#)'']"
    using assms
    by (simp add: scanStep_underscore1)
      (simp add: initialState_def appendToC_def slugify_Nil tocLine_def Repeat_def)
  then show ?thesis
    using toc_scan_take [of 3 "scanStep uni depth (initialState skip) e" uni depth rest]
    by simp
qed

lemma scanStep_blank: "scanStep uni depth sp [] = sp\<lparr>previousLine := []\<rparr>"
  by (simp add: scanStep_def matchHashHeader_def matchUnderscoreHeader1_def
      matchUnderscoreHeader2_def)

lemma toc_underscore1:
  assumes "matchUnderscoreHeader1 e" and "skipHeaders sp \<le> 0"
  shows "toc (scanStep uni depth sp e) =
     toc sp @ [tocLine 0 (previousLine sp)
       (case seenHeaders sp (slugify uni (previousLine sp)) of
          None \<Rightarrow> slugify uni (previousLine sp)
        | Some n \<Rightarrow> slugify uni (previousLine sp) @ ''-'' @ showInt n)]"
  using assms
  by (simp add: scanStep_underscore1 appendToC_def Let_def split: option.splits)

lemma underscore1_entry:
  assumes "matchUnderscoreHeader1 e" and "skipHeaders sp \<le> 0"
  shows "take (Suc (length (toc sp))) (toc (foldl (scanStep uni depth) sp (e # rest))) =
     toc sp @ [tocLine 0 (previousLine sp)
       (case seenHeaders sp (slugify uni (previousLine sp)) of
          None \<Rightarrow> slugify uni (previousLine sp)
        | Some n \<Rightarrow> slugify uni (previousLine sp) @ ''-'' @ showInt n)]"
proof -
  have l: "Suc (length (toc sp)) \<le> length (toc (scanStep uni depth sp e))"
    by (simp add: toc_underscore1 [OF assms])
  have "take (Suc (length (toc sp))) (toc (foldl (scanStep uni depth) (scanStep uni depth sp e) rest)) =
      take (Suc (length (toc sp))) (toc (scanStep uni depth sp e))"
    using l by (rule toc_scan_take)
  then show ?thesis
    by (simp add: toc_underscore1 [OF assms])
qed

lemma underscore1_after_blank:
  assumes "matchUnderscoreHeader1 e" and "skipHeaders sp \<le> 0"
  shows "take (Suc (length (toc sp))) (toc (foldl (scanStep uni depth) sp ([] # e # rest))) =
     toc sp @ [''1. [](#'' @
       (case seenHeaders sp [] of None \<Rightarrow> [] | Some n \<Rightarrow> ''-'' @ showInt n) @ '')'']"
  using underscore1_entry [of e "sp\<lparr>previousLine := []\<rparr>" uni depth rest] assms
  by (simp add: scanStep_blank slugify_Nil tocLine_def Repeat_def split: option.splits)

text \<open>
  Claim C3, as amended. A line of \<open>=\<close> characters makes the loop call
  \<open>appendToC(previousLine, 0)\<close> whatever \<open>previousLine\<close> holds, blank or not: the code
  has no test of the previous line. Wherever the line stands in the document, with
  \<open>sp\<close> the state after the lines before it: when no skip is left, one entry is
  appended to the table of contents, at depth 0, titled with the line tracked as
  previous, and anchored with the slug of that title, or with the slug and the suffix
  \<open>-n\<close> when the map holds the count \<open>n\<close> for the slug; the entry stays in the result.
  After a blank line the title is empty and the entry is \<open>1. [](#)\<close>, or
  \<open>1. [](#-n)\<close> when the map holds \<open>n\<close> for the empty slug. As the first line of
  the document the entry is \<open>1. [](#)\<close>. When a skip is left, the line uses it up and
  no entry is appended.
\<close>

theorem setext1_any_previous_line:
  assumes "matchUnderscoreHeader1 e"
  shows "scanStep uni depth st e = (appendToC uni (previousLine st) 0 st)\<lparr>previousLine := e\<rparr> \<and>
    (snd (scanAll d) = None \<and> fst (scanAll d) = pre @ [e] \<longrightarrow>
       BuildMarkdownToc uni d depth skip =
         (toc (appendToC uni (foldl (nextPrevious depth) [] pre) 0
                (foldl (scanStep uni depth) (initialState skip) pre)), None)) \<and>
    (snd (scanAll d) = None \<and> fst (scanAll d) = e # rest \<and> skip \<le> 0 \<longrightarrow>
       take 3 (fst (BuildMarkdownToc uni d depth skip)) =
         [''Table of Contents'', ''================='', ''1. [](#)'']) \<and>
    (snd (scanAll d) = None \<and> fst (scanAll d) = pre @ e # rest \<and>
     sp = foldl (scanStep uni depth) (initialState skip) pre \<and> skipHeaders sp \<le> 0 \<longrightarrow>
       previousLine sp = foldl (nextPrevious depth) [] pre \<and>
       take (Suc (length (toc sp))) (fst (BuildMarkdownToc uni d depth skip)) =
         toc sp @ [tocLine 0 (previousLine sp)
           (case seenHeaders sp (slugify uni (previousLine sp)) of
              None \<Rightarrow> slugify uni (previousLine sp)
            | Some n \<Rightarrow> slugify uni (previousLine sp) @ ''-'' @ showInt n)]) \<and>
    (snd (scanAll d) = None \<and> fst (scanAll d) = pre @ [] # e # rest \<and>
     sp = foldl (scanStep uni depth) (initialState skip) pre \<and> skipHeaders sp \<le> 0 \<longrightarrow>
       take (Suc (length (toc sp))) (fst (BuildMarkdownToc uni d depth skip)) =
         toc sp @ [''1. [](#'' @
           (case seenHeaders sp [] of None \<Rightarrow> [] | Some n \<Rightarrow> ''-'' @ showInt n) @ '')'']) \<and>
    (snd (scanAll d) = None \<and> fst (scanAll d) = pre @ e # rest \<and>
     sp = foldl (scanStep uni depth) (initialState skip) pre \<and> 0 < skipHeaders sp \<longrightarrow>
       BuildMarkdownToc uni d depth skip =
         (toc (foldl (scanStep uni depth)
                 (sp\<lparr>skipHeaders := skipHeaders sp - 1, previousLine := e\<rparr>) rest), None))"
proof (intro conjI impI)
  show "scanStep uni depth st e = (appendToC uni (previousLine st) 0 st)\<lparr>previousLine := e\<rparr>"
    using assms by (rule scanStep_underscore1)
next
  assume "snd (scanAll d) = None \<and> fst (scanAll d) = pre @ [e]"
  then show "BuildMarkdownToc uni d depth skip =
      (toc (appendToC uni (foldl (nextPrevious depth) [] pre) 0
             (foldl (scanStep uni depth) (initialState skip) pre)), None)"
    using assms
    by (simp add: scanStep_underscore1 BuildMarkdownToc_lines previousLine_scan
        previousLine_initialState)
next
  assume "snd (scanAll d) = None \<and> fst (scanAll d) = e # rest \<and> skip \<le> 0"
  then show "take 3 (fst (BuildMarkdownToc uni d depth skip)) =
      [''Table of Contents'', ''================='', ''1. [](#)'']"
    using first_underscore1 [OF assms, of skip uni depth rest]
    by (simp add: BuildMarkdownToc_lines)
next
  assume a: "snd (scanAll d) = None \<and> fst (scanAll d) = pre @ e # rest \<and>
     sp = foldl (scanStep uni depth) (initialState skip) pre \<and> skipHeaders sp \<le> 0"
  then show "previousLine sp = foldl (nextPrevious depth) [] pre"
    by (simp add: previousLine_scan previousLine_initialState)
  have "skipHeaders sp \<le> 0" using a by blast
  from underscore1_entry [OF assms this, of uni depth rest]
  show "take (Suc (length (toc sp))) (fst (BuildMarkdownToc uni d depth skip)) =
      toc sp @ [tocLine 0 (previousLine sp)
        (case seenHeaders sp (slugify uni (previousLine sp)) of
           None \<Rightarrow> slugify uni (previousLine sp)
         | Some n \<Rightarrow> slugify uni (previousLine sp) @ ''-'' @ showInt n)]"
    using a by (simp add: BuildMarkdownToc_lines)
next
  assume a: "snd (scanAll d) = None \<and> fst (scanAll d) = pre @ [] # e # rest \<and>
     sp = foldl (scanStep uni depth) (initialState skip) pre \<and> skipHeaders sp \<le> 0"
  then have "skipHeaders sp \<le> 0" by blast
  from underscore1_after_blank [OF assms this, of uni depth rest]
  show "take (Suc (length (toc sp))) (fst (BuildMarkdownToc uni d depth skip)) =
      toc sp @ [''1. [](#'' @
        (case seenHeaders sp [] of None \<Rightarrow> [] | Some n \<Rightarrow> ''-'' @ showInt n) @ '')'']"
    using a by (simp add: BuildMarkdownToc_lines)
next
  assume a: "snd (scanAll d) = None \<and> fst (scanAll d) = pre @ e # rest \<and>
     sp = foldl (scanStep uni depth) (initialState skip) pre \<and> 0 < skipHeaders sp"
  then have pos: "0 < skipHeaders sp" by blast
  have "scanStep uni depth sp e = sp\<lparr>skipHeaders := skipHeaders sp - 1, previousLine := e\<rparr>"
    by (simp only: scanStep_underscore1 [OF assms] appendToC_skip_pos [OF pos])
  then show "BuildMarkdownToc uni d depth skip =
      (toc (foldl (scanStep uni depth)
              (sp\<lparr>skipHeaders := skipHeaders sp - 1, previousLine := e\<rparr>) rest), None)"
    using a by (simp add: BuildMarkdownToc_lines)
qed

lemma lines_title_eq: "scanAll ''Title\<newline>==='' = ([''Title'', ''===''], None)"
  by (simp add: scanAll.simps scan_ev)

lemma lines_eq_x: "scanAll ''===\<newline>x'' = ([''==='', ''x''], None)"
  by (simp add: scanAll.simps scan_ev)

lemma lines_eq_blank_eq: "scanAll ''===\<newline>\<newline>==='' = ([''==='', [], ''===''], None)"
  by (simp add: scanAll.simps scan_ev)

lemma lines_a_eq_eq: "scanAll ''# A\<newline>===\<newline>==='' = ([''# A'', ''==='', ''===''], None)"
  by (simp add: scanAll.simps scan_ev)

text \<open>
  \<open>Title\<close> underlined gives the entry \<open>Title\<close>; an underline as first line gives the
  empty entry; a second underline after a blank line gives the empty entry with the
  suffix \<open>-1\<close>; with two skips the heading and the first underline are dropped.
\<close>

theorem setext1_any_previous_line_witness:
  "matchUnderscoreHeader1 ''==='' \<and>
   BuildMarkdownToc id ''Title\<newline>==='' 0 0 =
     ([''Table of Contents'', ''================='', ''1. [Title](#title)''], None) \<and>
   take 3 (fst (BuildMarkdownToc id ''===\<newline>x'' 0 0)) =
     [''Table of Contents'', ''================='', ''1. [](#)''] \<and>
   take 4 (fst (BuildMarkdownToc id ''===\<newline>\<newline>==='' 0 0)) =
     [''Table of Contents'', ''================='', ''1. [](#)'', ''1. [](#-1)''] \<and>
   BuildMarkdownToc id ''# A\<newline>===\<newline>==='' 0 2 =
     ([''Table of Contents'', ''================='', ''1. [===](#===)''], None)"
proof -
  have m: "matchUnderscoreHeader1 ''===''"
    by (simp add: matchUnderscoreHeader1_def)
  have p: "foldl (nextPrevious 0) [] [''Title''] = ''Title''"
    by (simp add: calls_ev)
  have s: "foldl (scanStep id 0) (initialState 0) [''Title''] =
      (initialState 0)\<lparr>previousLine := ''Title''\<rparr>"
    by (simp add: scanStep_def calls_ev)
  have t: "toc (appendToC id ''Title'' 0 ((initialState 0)\<lparr>previousLine := ''Title''\<rparr>)) =
      [''Table of Contents'', ''================='', ''1. [Title](#title)'']"
    by (simp add: step_ev)
  have one: "BuildMarkdownToc id ''Title\<newline>==='' 0 0 =
     ([''Table of Contents'', ''================='', ''1. [Title](#title)''], None)"
    using setext1_any_previous_line [OF m, of id 0 "initialState 0" "''Title\<newline>===''"
        "[''Title'']" 0 "[]" "initialState 0"]
    by (simp add: lines_title_eq p s t del: foldl_Cons)
  have two: "take 3 (fst (BuildMarkdownToc id ''===\<newline>x'' 0 0)) =
     [''Table of Contents'', ''================='', ''1. [](#)'']"
    using setext1_any_previous_line [OF m, of id 0 "initialState 0" "''===\<newline>x''"
        "[]" 0 "[''x'']" "initialState 0"]
    by (simp add: lines_eq_x del: foldl_Cons)
  have n4: "Suc (Suc (Suc (Suc 0))) = 4"
    by simp
  have s3: "foldl (scanStep id 0) (initialState 0) [''===''] =
      \<lparr>toc = [''Table of Contents'', ''================='', ''1. [](#)''],
       seenHeaders = [[] \<mapsto> 1], previousLine = ''==='', skipHeaders = 0\<rparr>"
    by (simp add: step_ev)
  have three: "take 4 (fst (BuildMarkdownToc id ''===\<newline>\<newline>==='' 0 0)) =
     [''Table of Contents'', ''================='', ''1. [](#)'', ''1. [](#-1)'']"
    using setext1_any_previous_line [OF m, of id 0 "initialState 0" "''===\<newline>\<newline>===''"
        "[''==='']" 0 "[]"
        "\<lparr>toc = [''Table of Contents'', ''================='', ''1. [](#)''],
          seenHeaders = [[] \<mapsto> 1], previousLine = ''==='', skipHeaders = 0\<rparr>"]
    by (simp add: lines_eq_blank_eq s3 showInt_1 n4 del: foldl_Cons)
  have s4: "foldl (scanStep id 0) (initialState 2) [''# A''] =
      \<lparr>toc = [''Table of Contents'', ''=================''],
       seenHeaders = Map.empty, previousLine = ''# A'', skipHeaders = 1\<rparr>"
    by (simp add: step_ev)
  have t4: "toc (foldl (scanStep id 0)
      \<lparr>toc = [''Table of Contents'', ''=================''],
       seenHeaders = Map.empty, previousLine = ''==='', skipHeaders = 0\<rparr> [''==='']) =
      [''Table of Contents'', ''================='', ''1. [===](#===)'']"
    by (simp add: step_ev)
  have four: "BuildMarkdownToc id ''# A\<newline>===\<newline>==='' 0 2 =
     ([''Table of Contents'', ''================='', ''1. [===](#===)''], None)"
    using setext1_any_previous_line [OF m, of id 0 "initialState 0" "''# A\<newline>===\<newline>===''"
        "[''# A'']" 2 "[''==='']"
        "\<lparr>toc = [''Table of Contents'', ''=================''],
          seenHeaders = Map.empty, previousLine = ''# A'', skipHeaders = 1\<rparr>"]
    by (simp add: lines_a_eq_eq s4 t4 del: foldl_Cons)
  show ?thesis
    using m one two three four by simp
qed

lemma lines_eq: "scanAll ''===\<newline>'' = ([''===''], None)"
  by (simp add: scanAll.simps scan_ev)

lemma lines_title_blank_eq: "scanAll ''Title\<newline>\<newline>===\<newline>'' = ([''Title'', [], ''===''], None)"
  by (simp add: scanAll.simps scan_ev)

text \<open>
  Claim C3 as stated fails: a line of \<open>=\<close> that is the first line of the document, or
  that follows a blank line, does produce an entry.
\<close>

theorem setext1_blank_previous_counterexample:
  "BuildMarkdownToc id ''===\<newline>'' 0 0 =
     ([''Table of Contents'', ''================='', ''1. [](#)''], None) \<and>
   BuildMarkdownToc id ''Title\<newline>\<newline>===\<newline>'' 0 0 =
     ([''Table of Contents'', ''================='', ''1. [](#)''], None)"
proof -
  have a: "toc (foldl (scanStep id 0) (initialState 0) [''==='']) =
      [''Table of Contents'', ''================='', ''1. [](#)'']"
    by (simp add: step_ev)
  have b: "toc (foldl (scanStep id 0) (initialState 0) [''Title'', [], ''==='']) =
      [''Table of Contents'', ''================='', ''1. [](#)'']"
    by (simp add: step_ev)
  show ?thesis
    by (simp add: BuildMarkdownToc_lines lines_eq lines_title_blank_eq a b del: foldl_Cons)
qed

section \<open>Depth filter\<close>

lemma scanStep_filtered:
  "matchHashHeader h = Some (m1, m2) \<Longrightarrow> 0 < depth \<Longrightarrow> depth < int (length m1) \<Longrightarrow>
   scanStep uni depth st h = st"
  by (simp add: scanStep_def)

lemma scanStep_hash:
  "matchHashHeader h = Some (m1, m2) \<Longrightarrow> \<not> (0 < depth \<and> depth < int (length m1)) \<Longrightarrow>
   scanStep uni depth st h = (appendToC uni m2 (length m1 - 1) st)\<lparr>previousLine := h\<rparr>"
  by (auto simp: scanStep_def)

lemma matchHashHeader_length:
  assumes "matchHashHeader h = Some (m1, m2)"
  shows "length m1 =
     (if list_all (\<lambda>c. c = CHR ''#'') h then length h - 1
      else length (takeWhile (\<lambda>c. c = CHR ''#'') h))"
proof (cases "list_all (\<lambda>c. c = CHR ''#'') h")
  case True
  then have tw: "takeWhile (\<lambda>c. c = CHR ''#'') h = h"
    and dw: "dropWhile (\<lambda>c. c = CHR ''#'') h = []"
    by (simp_all add: list_all_iff)
  have "matchHashHeader h =
      (if h = [] then None else if 2 \<le> length h then Some (butlast h, ''#'') else None)"
    unfolding matchHashHeader_def Let_def tw dw by simp
  then have "m1 = butlast h"
    using assms by (simp split: if_splits)
  then show ?thesis
    using True by simp
next
  case False
  then have ne: "dropWhile (\<lambda>c. c = CHR ''#'') h \<noteq> []"
    by (simp add: list_all_iff)
  have "m1 = takeWhile (\<lambda>c. c = CHR ''#'') h"
    using assms ne unfolding matchHashHeader_def Let_def
    by (simp split: if_splits)
  then show ?thesis
    using False by simp
qed

text \<open>
  Claim C4, as amended. A line that matches \<open>rHashHeader\<close> with the run \<open>m1\<close> of \<open>#\<close>
  is excluded exactly when \<open>depth\<close> is positive and \<open>m1\<close> is longer than \<open>depth\<close>:
  the output is then that of the document without the line. Otherwise, and always when
  \<open>depth\<close> is 0, the loop emits it at indent \<open>length m1 - 1\<close> and goes on. The length
  of \<open>m1\<close> is the count of leading \<open>#\<close> of the line, except on a line of \<open>#\<close> only,
  where the last \<open>#\<close> is the title and \<open>m1\<close> is one shorter.
\<close>

theorem maxDepth_filter:
  assumes "matchHashHeader h = Some (m1, m2)"
  shows "(0 < depth \<and> depth < int (length m1) \<and>
          scanAll d = (pre @ h # post, None) \<and> scanAll d' = (pre @ post, None) \<longrightarrow>
            BuildMarkdownToc uni d depth skip = BuildMarkdownToc uni d' depth skip) \<and>
         (\<not> (0 < depth \<and> depth < int (length m1)) \<longrightarrow>
            foldl (scanStep uni depth) st (pre @ h # post) =
            foldl (scanStep uni depth)
              ((appendToC uni m2 (length m1 - 1) (foldl (scanStep uni depth) st pre))
                 \<lparr>previousLine := h\<rparr>) post) \<and>
         length m1 =
           (if list_all (\<lambda>c. c = CHR ''#'') h then length h - 1
            else length (takeWhile (\<lambda>c. c = CHR ''#'') h))"
proof (intro conjI impI)
  assume a: "0 < depth \<and> depth < int (length m1) \<and>
      scanAll d = (pre @ h # post, None) \<and> scanAll d' = (pre @ post, None)"
  then have "scanStep uni depth (foldl (scanStep uni depth) (initialState skip) pre) h =
      foldl (scanStep uni depth) (initialState skip) pre"
    using assms by (simp add: scanStep_filtered)
  then show "BuildMarkdownToc uni d depth skip = BuildMarkdownToc uni d' depth skip"
    using a by (simp add: BuildMarkdownToc_lines)
next
  assume "\<not> (0 < depth \<and> depth < int (length m1))"
  then have "scanStep uni depth (foldl (scanStep uni depth) st pre) h =
      (appendToC uni m2 (length m1 - 1) (foldl (scanStep uni depth) st pre))\<lparr>previousLine := h\<rparr>"
    using assms by (rule scanStep_hash [rotated])
  then show "foldl (scanStep uni depth) st (pre @ h # post) =
      foldl (scanStep uni depth)
        ((appendToC uni m2 (length m1 - 1) (foldl (scanStep uni depth) st pre))
           \<lparr>previousLine := h\<rparr>) post"
    by simp
next
  show "length m1 =
      (if list_all (\<lambda>c. c = CHR ''#'') h then length h - 1
       else length (takeWhile (\<lambda>c. c = CHR ''#'') h))"
    using assms by (rule matchHashHeader_length)
qed

lemma lines_abc: "scanAll ''# A\<newline>## B\<newline>### C'' = ([''# A'', ''## B'', ''### C''], None)"
  by (simp add: scanAll.simps scan_ev)

lemma lines_ab: "scanAll ''# A\<newline>## B'' = ([''# A'', ''## B''], None)"
  by (simp add: scanAll.simps scan_ev)

text \<open>
  \<open># A\<close>, \<open>## B\<close>, \<open>### C\<close> with \<open>depth = 2\<close> gives the entries A and B only; with
  \<open>depth = 0\<close> all three.
\<close>

theorem maxDepth_filter_witness:
  "matchHashHeader ''### C'' = Some (''###'', ''C'') \<and>
   BuildMarkdownToc id ''# A\<newline>## B\<newline>### C'' 2 0 =
     ([''Table of Contents'', ''================='', ''1. [A](#a)'', ''   1. [B](#b)''], None) \<and>
   toc (foldl (scanStep id 0) (initialState 0) [''# A'', ''## B'', ''### C'']) =
     [''Table of Contents'', ''================='', ''1. [A](#a)'', ''   1. [B](#b)'',
      ''      1. [C](#c)'']"
proof -
  have m: "matchHashHeader ''### C'' = Some (''###'', ''C'')"
    by (simp add: matchHashHeader_def)
  have ab: "BuildMarkdownToc id ''# A\<newline>## B'' 2 0 =
      ([''Table of Contents'', ''================='', ''1. [A](#a)'', ''   1. [B](#b)''], None)"
  proof -
    have "toc (foldl (scanStep id 2) (initialState 0) [''# A'', ''## B'']) =
        [''Table of Contents'', ''================='', ''1. [A](#a)'', ''   1. [B](#b)'']"
      by (simp add: step_ev)
    then show ?thesis
      by (simp add: BuildMarkdownToc_lines lines_ab del: foldl_Cons)
  qed
  have c: "toc (appendToC id ''C'' (Suc (Suc 0)) (foldl (scanStep id 0) (initialState 0) [''# A'', ''## B''])) =
     [''Table of Contents'', ''================='', ''1. [A](#a)'', ''   1. [B](#b)'',
      ''      1. [C](#c)'']"
    by (simp add: step_ev)
  show ?thesis
    using maxDepth_filter [OF m, of 2 "''# A\<newline>## B\<newline>### C''" "[''# A'', ''## B'']" "[]"
        "''# A\<newline>## B''" id 0 "initialState 0"]
      maxDepth_filter [OF m, of 0 "''# A\<newline>## B\<newline>### C''" "[''# A'', ''## B'']" "[]"
        "''# A\<newline>## B''" id 0 "initialState 0"]
    by (simp add: m lines_abc lines_ab ab c del: foldl_Cons)
qed

lemma lines_hashes: "scanAll ''###'' = ([''###''], None)"
  by (simp add: scanAll.simps scan_ev)

text \<open>
  Claim C4 as stated fails on the line \<open>###\<close> with \<open>depth = 2\<close>: it has three leading
  \<open>#\<close>, more than \<open>depth\<close>, and is not excluded: the pattern matches it as \<open>##\<close> with
  the title \<open>#\<close>.
\<close>

theorem maxDepth_all_hashes_counterexample:
  "BuildMarkdownToc id ''###'' 2 0 =
     ([''Table of Contents'', ''================='', ''   1. [#](#)''], None)"
proof -
  have "toc (foldl (scanStep id 2) (initialState 0) [''###'']) =
      [''Table of Contents'', ''================='', ''   1. [#](#)'']"
    by (simp add: step_ev)
  then show ?thesis
    by (simp add: BuildMarkdownToc_lines lines_hashes del: foldl_Cons)
qed

section \<open>Tracking of the previous line\<close>

lemma previousLine_scanStep:
  "previousLine (scanStep uni depth st l) =
     (if depthFiltered depth l then previousLine st else l)"
  by (simp add: scanStep_calls nextPrevious_def)

lemma scanStep_depthFiltered: "depthFiltered depth l \<Longrightarrow> scanStep uni depth st l = st"
  by (auto simp: scanStep_def depthFiltered_def split: option.splits)

text \<open>
  Claim C10, as amended. Every scanned line becomes \<open>previousLine\<close>, headings and
  underlines included, except the lines that the depth filter drops with \<open>continue\<close>,
  which leave it as it was. So when a line of \<open>=\<close> ends the document, after a line
  \<open>l\<close> that was not dropped, one more heading is emitted at depth 0 with the raw text of
  \<open>l\<close> as its title; after a dropped line, the title is the line tracked before it.
\<close>

theorem previous_line_tracking:
  "previousLine (scanStep uni depth st l) =
     (if depthFiltered depth l then previousLine st else l) \<and>
   (matchUnderscoreHeader1 e \<and> \<not> depthFiltered depth l \<and>
    snd (scanAll d) = None \<and> fst (scanAll d) = pre @ [l, e] \<longrightarrow>
      BuildMarkdownToc uni d depth skip =
        (toc (appendToC uni l 0 (foldl (scanStep uni depth) (initialState skip) (pre @ [l]))),
         None)) \<and>
   (matchUnderscoreHeader1 e \<and> depthFiltered depth l \<and>
    snd (scanAll d) = None \<and> fst (scanAll d) = pre @ [l, e] \<longrightarrow>
      BuildMarkdownToc uni d depth skip =
        (toc (appendToC uni (foldl (nextPrevious depth) [] pre) 0
               (foldl (scanStep uni depth) (initialState skip) pre)), None))"
  by (simp add: previousLine_scanStep BuildMarkdownToc_lines scanStep_underscore1
      scanStep_depthFiltered previousLine_scan previousLine_initialState)

lemma lines_a_eq: "scanAll ''# A\<newline>==='' = ([''# A'', ''===''], None)"
  by (simp add: scanAll.simps scan_ev)

lemma lines_title_c_eq:
  "scanAll ''Title\<newline>### C\<newline>==='' = ([''Title'', ''### C'', ''===''], None)"
  by (simp add: scanAll.simps scan_ev)

text \<open>
  After the heading \<open># A\<close> the underline emits the entry \<open># A\<close>; after the dropped
  heading \<open>### C\<close> it emits \<open>Title\<close>, the line before.
\<close>

theorem previous_line_tracking_witness:
  "matchUnderscoreHeader1 ''==='' \<and> \<not> depthFiltered 0 ''# A'' \<and> depthFiltered 2 ''### C'' \<and>
   BuildMarkdownToc id ''# A\<newline>==='' 0 0 =
     ([''Table of Contents'', ''================='', ''1. [A](#a)'', ''1. [# A](#-a)''], None) \<and>
   BuildMarkdownToc id ''Title\<newline>### C\<newline>==='' 2 0 =
     ([''Table of Contents'', ''================='', ''1. [Title](#title)''], None)"
proof -
  have m: "matchUnderscoreHeader1 ''===''"
    by (simp add: matchUnderscoreHeader1_def)
  have f0: "\<not> depthFiltered 0 ''# A''"
    by (simp add: calls_ev)
  have f2: "depthFiltered 2 ''### C''"
    by (simp add: calls_ev)
  have a: "toc (appendToC id ''# A'' 0 (foldl (scanStep id 0) (initialState 0) [''# A''])) =
      [''Table of Contents'', ''================='', ''1. [A](#a)'', ''1. [# A](#-a)'']"
    by (simp add: step_ev)
  have p: "foldl (nextPrevious 2) [] [''Title''] = ''Title''"
    by (simp add: calls_ev)
  have b: "toc (appendToC id ''Title'' 0 (foldl (scanStep id 2) (initialState 0) [''Title''])) =
      [''Table of Contents'', ''================='', ''1. [Title](#title)'']"
    by (simp add: step_ev)
  show ?thesis
    using previous_line_tracking [of id 0 "initialState 0" "''# A''" "''===''" "''# A\<newline>===''" "[]" 0]
      previous_line_tracking [of id 2 "initialState 0" "''### C''" "''===''"
        "''Title\<newline>### C\<newline>===''" "[''Title'']" 0]
    by (simp add: m f0 f2 lines_a_eq lines_title_c_eq a b p del: foldl_Cons)
qed

text \<open>
  Claim C10 as stated fails with \<open>depth = 2\<close>: the line of \<open>=\<close> directly after the
  heading line \<open>### C\<close> emits an entry titled \<open>Title\<close>, not \<open>### C\<close>.
\<close>

theorem previous_line_filtered_counterexample:
  "BuildMarkdownToc id ''Title\<newline>### C\<newline>==='' 2 0 =
     ([''Table of Contents'', ''================='', ''1. [Title](#title)''], None)"
proof -
  have "toc (foldl (scanStep id 2) (initialState 0) [''Title'', ''### C'', ''==='']) =
      [''Table of Contents'', ''================='', ''1. [Title](#title)'']"
    by (simp add: step_ev)
  then show ?thesis
    by (simp add: BuildMarkdownToc_lines lines_title_c_eq del: foldl_Cons)
qed

section \<open>Cell escaping\<close>

lemma escape_no_LF: "LF \<notin> set (MarkdownTableCellEscape s)"
  by (induction s rule: MarkdownTableCellEscape.induct) (auto simp: LF_def)

lemma escape_id: "LF \<notin> set s \<Longrightarrow> MarkdownTableCellEscape s = s"
  by (induction s rule: MarkdownTableCellEscape.induct) auto

lemma escape_LF_Cons: "MarkdownTableCellEscape (LF # b) = ''<br>'' @ MarkdownTableCellEscape b"
  by (cases b) simp_all

lemma escape_CRLF_Cons:
  "MarkdownTableCellEscape (CR # LF # b) = ''<br>'' @ MarkdownTableCellEscape b"
  by (simp add: CR_def LF_def)

lemma escape_Cons_other:
  "c \<noteq> LF \<Longrightarrow> (c = CR \<Longrightarrow> b = [] \<or> hd b \<noteq> LF) \<Longrightarrow>
   MarkdownTableCellEscape (c # b) = c # MarkdownTableCellEscape b"
  by (cases b) auto

lemma escape_append_CRLF:
  "MarkdownTableCellEscape (a @ CR # LF # b) =
   MarkdownTableCellEscape a @ ''<br>'' @ MarkdownTableCellEscape b"
proof (induction a rule: MarkdownTableCellEscape.induct)
  case 1
  show ?case by (simp add: escape_CRLF_Cons del: MarkdownTableCellEscape.simps(3))
next
  case (2 c)
  have "CR \<noteq> LF" by (simp add: CR_def LF_def)
  then show ?case
    by (simp add: escape_CRLF_Cons del: MarkdownTableCellEscape.simps(3))
      (simp add: escape_CRLF_Cons)
next
  case (3 c d cs)
  then show ?case by simp
qed

lemma escape_append_LF:
  "a = [] \<or> last a \<noteq> CR \<Longrightarrow>
   MarkdownTableCellEscape (a @ LF # b) =
   MarkdownTableCellEscape a @ ''<br>'' @ MarkdownTableCellEscape b"
proof (induction a rule: MarkdownTableCellEscape.induct)
  case 1
  show ?case by (simp add: escape_LF_Cons)
next
  case (2 c)
  then show ?case by (simp add: escape_LF_Cons)
next
  case (3 c d cs)
  then show ?case by (auto split: if_splits)
qed

text \<open>
  Claim C7. The escaped cell holds no line feed. A cell without line feed is returned as
  it is, pipe characters included. A carriage return with a line feed after it, and a
  line feed with no carriage return before it, each become \<open><br>\<close>, and the text
  on both sides is escaped on its own: nothing else changes.
\<close>

theorem cell_escape:
  "LF \<notin> set (MarkdownTableCellEscape s) \<and>
   (LF \<notin> set s \<longrightarrow> MarkdownTableCellEscape s = s) \<and>
   MarkdownTableCellEscape (a @ [CR, LF] @ b) =
     MarkdownTableCellEscape a @ ''<br>'' @ MarkdownTableCellEscape b \<and>
   (a = [] \<or> last a \<noteq> CR \<longrightarrow>
      MarkdownTableCellEscape (a @ [LF] @ b) =
        MarkdownTableCellEscape a @ ''<br>'' @ MarkdownTableCellEscape b)"
  using escape_append_CRLF [of a b] escape_append_LF [of a b]
  by (simp add: escape_no_LF escape_id)

text \<open>Pipes pass through; both kinds of line break become \<open><br>\<close>.\<close>

theorem cell_escape_witness:
  "LF \<notin> set ''a|b'' \<and> MarkdownTableCellEscape ''a|b'' = ''a|b'' \<and>
   MarkdownTableCellEscape (''x'' @ [CR, LF] @ ''y|z'') = ''x<br>y|z'' \<and>
   last ''x'' \<noteq> CR \<and>
   MarkdownTableCellEscape (''x'' @ [LF] @ ''y|z'') = ''x<br>y|z'' \<and>
   LF \<notin> set (MarkdownTableCellEscape (''x'' @ [LF] @ ''y|z''))"
  using cell_escape [of "''a|b''" "''x''" "''y|z''"]
    cell_escape [of "''x'' @ [LF] @ ''y|z''" "[]" "[]"]
  by (simp add: LF_def CR_def)

section \<open>Shape of a rendered table\<close>

lemma Split_no_sep: "sep \<notin> set s \<Longrightarrow> Split s sep = [s]"
  by (induction s) auto

lemma Split_not_Nil: "Split s sep \<noteq> []"
  by (induction s) (auto split: list.splits)

lemma Split_append_sep: "sep \<notin> set a \<Longrightarrow> Split (a @ sep # b) sep = a # Split b sep"
  by (induction a) auto

lemma foldl_cells:
  "foldl (\<lambda>table val. table @ '' '' @ f val @ '' |'') table d =
   table @ concat (map (\<lambda>val. '' '' @ f val @ '' |'') d)"
  by (induction d arbitrary: table) auto

lemma MarkdownTable_two_one:
  "MarkdownTable [h1, h2] [r1, r2] [row] =
     (''| '' @ h1 @ '' | '' @ h2 @ '' |'') @ LF #
     (''| '' @ r1 @ '' | '' @ r2 @ '' |'') @ LF #
     (''|'' @ concat (map (\<lambda>val. '' '' @ MarkdownTableCellEscape val @ '' |'') row))"
  unfolding MarkdownTable_def Let_def foldl_cells by simp

lemma LF_notin_cells:
  "LF \<notin> set (concat (map (\<lambda>val. '' '' @ MarkdownTableCellEscape val @ '' |'') row))"
  by (induction row) (auto simp: escape_no_LF, auto simp: LF_def)

lemma last_cells:
  "last (''|'' @ concat (map (\<lambda>val. '' '' @ f val @ '' |'') row)) = CHR ''|''"
  by (induction row rule: rev_induct) auto

text \<open>
  Claim C6, as amended. For two headers and two rule tokens that hold no line feed, and
  one data row of any width, the rendered table has exactly three text lines: the
  headers, the rule tokens as given, and the cells of the row, each cell escaped. Every
  line begins and ends with \<open>|\<close>. Headers and rule tokens are written as they are,
  without escaping.
\<close>

theorem table_three_lines:
  assumes "LF \<notin> set h1" and "LF \<notin> set h2" and "LF \<notin> set r1" and "LF \<notin> set r2"
  shows "Split (MarkdownTable [h1, h2] [r1, r2] [row]) LF =
      [''| '' @ h1 @ '' | '' @ h2 @ '' |'',
       ''| '' @ r1 @ '' | '' @ r2 @ '' |'',
       ''|'' @ concat (map (\<lambda>val. '' '' @ MarkdownTableCellEscape val @ '' |'') row)] \<and>
    list_all (\<lambda>l. hd l = CHR ''|'' \<and> last l = CHR ''|'')
      (Split (MarkdownTable [h1, h2] [r1, r2] [row]) LF)"
proof -
  have l1: "LF \<notin> set (''| '' @ h1 @ '' | '' @ h2 @ '' |'')"
    using assms(1,2) by (auto simp: LF_def)
  have l2: "LF \<notin> set (''| '' @ r1 @ '' | '' @ r2 @ '' |'')"
    using assms(3,4) by (auto simp: LF_def)
  have l3: "LF \<notin> set (''|'' @ concat (map (\<lambda>val. '' '' @ MarkdownTableCellEscape val @ '' |'') row))"
    using LF_notin_cells [of row] by (auto simp: LF_def)
  have s: "Split (MarkdownTable [h1, h2] [r1, r2] [row]) LF =
      [''| '' @ h1 @ '' | '' @ h2 @ '' |'',
       ''| '' @ r1 @ '' | '' @ r2 @ '' |'',
       ''|'' @ concat (map (\<lambda>val. '' '' @ MarkdownTableCellEscape val @ '' |'') row)]"
    unfolding MarkdownTable_two_one
    by (simp only: Split_append_sep [OF l1] Split_append_sep [OF l2] Split_no_sep [OF l3])
  have e1: "hd (''| '' @ h1 @ '' | '' @ h2 @ '' |'') = CHR ''|'' \<and>
      last (''| '' @ h1 @ '' | '' @ h2 @ '' |'') = CHR ''|''"
    by simp
  have e2: "hd (''| '' @ r1 @ '' | '' @ r2 @ '' |'') = CHR ''|'' \<and>
      last (''| '' @ r1 @ '' | '' @ r2 @ '' |'') = CHR ''|''"
    by simp
  have e3: "hd (''|'' @ concat (map (\<lambda>val. '' '' @ MarkdownTableCellEscape val @ '' |'') row)) = CHR ''|'' \<and>
      last (''|'' @ concat (map (\<lambda>val. '' '' @ MarkdownTableCellEscape val @ '' |'') row)) = CHR ''|''"
    using last_cells [of MarkdownTableCellEscape row] by simp
  show ?thesis
    by (simp only: s list.pred_inject e1 e2 e3 simp_thms)
qed

text \<open>The table of the headers \<open>Variable\<close>, \<open>Type\<close> and the row \<open>x\<close>, \<open>string\<close>.\<close>

theorem table_three_lines_witness:
  "LF \<notin> set ''Variable'' \<and> LF \<notin> set ''Type'' \<and> LF \<notin> set ''----'' \<and> LF \<notin> set ''------'' \<and>
   Split (MarkdownTable [''Variable'', ''Type''] [''----'', ''------''] [[''x'', ''string'']]) LF =
     [''| Variable | Type |'', ''| ---- | ------ |'', ''| x | string |'']"
  using table_three_lines [of "''Variable''" "''Type''" "''----''" "''------''" "[''x'', ''string'']"]
  by (simp add: LF_def)

text \<open>
  Claim C6 as stated fails when a header holds a line feed: the table then has four
  text lines, and the first does not end with \<open>|\<close>.
\<close>

theorem table_header_newline_counterexample:
  "Split (MarkdownTable [''a\<newline>b'', ''T''] [''--'', ''--''] [[''x'', ''y'']]) LF =
     [''| a'', ''b | T |'', ''| -- | -- |'', ''| x | y |'']"
  by (simp add: MarkdownTable_def LF_def)

section \<open>Row order of the extracted tables\<close>

lemma keys_foldl: "foldl (\<lambda>keys (k, obj). keys @ [k]) acc objs = acc @ map fst objs"
  by (induction objs arbitrary: acc) auto

lemma getSortedKeys_sort: "getSortedKeys objs = sort (map fst objs)"
  by (simp add: getSortedKeys_def keys_foldl)

lemma makeData_map:
  "makeData row objs = map (\<lambda>k. row (index objs k)) (getSortedKeys objs)"
proof -
  have "foldl (\<lambda>data k. data @ [row (index objs k)]) acc ks =
      acc @ map (\<lambda>k. row (index objs k)) ks" for acc ks
    by (induction ks arbitrary: acc) auto
  then show ?thesis by (simp add: makeData_def)
qed

lemma makeObjs_snoc:
  "makeObjs name obj (items @ [item]) =
   AList.update (name item) (obj item) (makeObjs name obj items)"
  by (simp add: makeObjs_def)

lemma makeObjs_Nil: "makeObjs name obj [] = []"
  by (simp add: makeObjs_def)

lemma distinct_makeObjs: "distinct (map fst (makeObjs name obj items))"
  by (induction items rule: rev_induct)
    (simp_all add: makeObjs_Nil makeObjs_snoc distinct_update)

lemma keys_makeObjs: "fst ` set (makeObjs name obj items) = name ` set items"
  by (induction items rule: rev_induct)
    (simp_all add: makeObjs_Nil makeObjs_snoc dom_update)

lemma map_of_makeObjs:
  "k \<in> name ` set items \<Longrightarrow>
   \<exists>item \<in> set items. name item = k \<and> map_of (makeObjs name obj items) k = Some (obj item)"
proof (induction items rule: rev_induct)
  case Nil
  then show ?case by simp
next
  case (snoc x xs)
  show ?case
  proof (cases "name x = k")
    case True
    then show ?thesis by (auto simp: makeObjs_snoc update_conv')
  next
    case False
    with snoc.prems have "k \<in> name ` set xs" by auto
    then obtain item where "item \<in> set xs" "name item = k"
      "map_of (makeObjs name obj xs) k = Some (obj item)"
      using snoc.IH by blast
    with False show ?thesis by (auto simp: makeObjs_snoc update_conv')
  qed
qed

lemma sorted_keys_makeObjs:
  "getSortedKeys (makeObjs name obj items) = sorted_list_of_set (name ` set items)"
proof -
  have "sorted_list_of_set (set (map fst (makeObjs name obj items))) =
      sort (map fst (makeObjs name obj items))"
    by (simp only: sorted_list_of_set_sort_remdups distinct_remdups_id [OF distinct_makeObjs])
  then show ?thesis
    by (simp add: getSortedKeys_sort keys_makeObjs)
qed

lemma data_names:
  assumes "\<And>item. Name (obj item) = name item" and "\<And>x. hd (row x) = Name x"
  shows "map hd (makeData row (makeObjs name obj items)) =
     sorted_list_of_set (name ` set items)"
proof -
  have "hd (row (index (makeObjs name obj items) k)) = k" if "k \<in> name ` set items" for k
    using map_of_makeObjs [OF that, of obj] assms by (auto simp: index_def)
  then have "map (\<lambda>k. hd (row (index (makeObjs name obj items) k)))
      (sorted_list_of_set (name ` set items)) = sorted_list_of_set (name ` set items)"
    by (intro map_idI) simp
  then show ?thesis
    by (simp add: makeData_map sorted_keys_makeObjs o_def)
qed

lemma data_perm:
  assumes "mset items' = mset items" and "distinct (map name items)"
  shows "makeData row (makeObjs name obj items') = makeData row (makeObjs name obj items)"
proof -
  have s: "set items' = set items"
    using assms(1) by (rule mset_eq_setD)
  have inj: "inj_on name (set items)"
    using assms(2) by (simp add: distinct_map)
  have "index (makeObjs name obj items') k = index (makeObjs name obj items) k"
    if k: "k \<in> name ` set items" for k
  proof -
    obtain a where a: "a \<in> set items" "name a = k"
      "map_of (makeObjs name obj items) k = Some (obj a)"
      using map_of_makeObjs [OF k, of obj] by blast
    have "k \<in> name ` set items'" using k s by simp
    then obtain b where b: "b \<in> set items'" "name b = k"
      "map_of (makeObjs name obj items') k = Some (obj b)"
      using map_of_makeObjs [of k name items' obj] by blast
    have "a = b"
      using inj a(1,2) b(1,2) s by (auto dest: inj_onD)
    then show ?thesis
      using a(3) b(3) by (simp add: index_def)
  qed
  then have "map (\<lambda>k. row (index (makeObjs name obj items') k))
        (sorted_list_of_set (name ` set items)) =
      map (\<lambda>k. row (index (makeObjs name obj items) k))
        (sorted_list_of_set (name ` set items))"
    by (intro map_cong) simp_all
  then show ?thesis
    by (simp add: makeData_map sorted_keys_makeObjs s)
qed

text \<open>
  What holds for every order of the items: in each of the five tables the first cell of
  a row is the name of its item, and the names read down the rows are the set of the
  items' names in ascending byte-wise lexicographic order, each once. Where the names of
  the items differ from each other, the whole rendered table is the same for every order
  of the items.
\<close>

lemma rows_sorted_by_name:
  "map hd (VarsData m baseUrl modulePath) =
     sorted_list_of_set (var_Name ` set (Variables m)) \<and>
   map hd (OutputsData m baseUrl modulePath) =
     sorted_list_of_set (out_Name ` set (Outputs m)) \<and>
   map hd (ManagedResourcesData m baseUrl modulePath) =
     sorted_list_of_set (res_Name ` set (ManagedResources m)) \<and>
   map hd (DataSourcesData m baseUrl modulePath) =
     sorted_list_of_set (res_Name ` set (DataResources m)) \<and>
   map hd (ModulesData m baseUrl modulePath) =
     sorted_list_of_set (call_Name ` set (ModuleCalls m)) \<and>
   (mset (Variables m') = mset (Variables m) \<and> distinct (map var_Name (Variables m)) \<longrightarrow>
      GetVarsTable m' baseUrl modulePath = GetVarsTable m baseUrl modulePath) \<and>
   (mset (Outputs m') = mset (Outputs m) \<and> distinct (map out_Name (Outputs m)) \<longrightarrow>
      GetOutputsTable m' baseUrl modulePath = GetOutputsTable m baseUrl modulePath) \<and>
   (mset (ManagedResources m') = mset (ManagedResources m) \<and>
    distinct (map res_Name (ManagedResources m)) \<longrightarrow>
      GetManagedResourcesTable m' baseUrl modulePath =
      GetManagedResourcesTable m baseUrl modulePath) \<and>
   (mset (DataResources m') = mset (DataResources m) \<and>
    distinct (map res_Name (DataResources m)) \<longrightarrow>
      GetDataSourcesTable m' baseUrl modulePath = GetDataSourcesTable m baseUrl modulePath) \<and>
   (mset (ModuleCalls m') = mset (ModuleCalls m) \<and> distinct (map call_Name (ModuleCalls m)) \<longrightarrow>
      GetModulesTable m' baseUrl modulePath = GetModulesTable m baseUrl modulePath)"
proof (intro conjI impI)
  show "map hd (VarsData m baseUrl modulePath) =
      sorted_list_of_set (var_Name ` set (Variables m))"
    by (simp add: VarsData_def data_names)
  show "map hd (OutputsData m baseUrl modulePath) =
      sorted_list_of_set (out_Name ` set (Outputs m))"
    by (simp add: OutputsData_def data_names)
  show "map hd (ManagedResourcesData m baseUrl modulePath) =
      sorted_list_of_set (res_Name ` set (ManagedResources m))"
    by (simp add: ManagedResourcesData_def resourceObjs_def data_names)
  show "map hd (DataSourcesData m baseUrl modulePath) =
      sorted_list_of_set (res_Name ` set (DataResources m))"
    by (simp add: DataSourcesData_def resourceObjs_def data_names)
  show "map hd (ModulesData m baseUrl modulePath) =
      sorted_list_of_set (call_Name ` set (ModuleCalls m))"
    by (simp add: ModulesData_def data_names)
next
  assume a: "mset (Variables m') = mset (Variables m) \<and> distinct (map var_Name (Variables m))"
  have e: "makeData row (makeObjs var_Name obj (Variables m')) = makeData row (makeObjs var_Name obj (Variables m))"
    for row obj
    using a data_perm [of "Variables m'" "Variables m" var_Name row obj] by simp
  show "GetVarsTable m' baseUrl modulePath = GetVarsTable m baseUrl modulePath"
    by (simp only: GetVarsTable_def VarsData_def e)
next
  assume a: "mset (Outputs m') = mset (Outputs m) \<and> distinct (map out_Name (Outputs m))"
  have e: "makeData row (makeObjs out_Name obj (Outputs m')) = makeData row (makeObjs out_Name obj (Outputs m))"
    for row obj
    using a data_perm [of "Outputs m'" "Outputs m" out_Name row obj] by simp
  show "GetOutputsTable m' baseUrl modulePath = GetOutputsTable m baseUrl modulePath"
    by (simp only: GetOutputsTable_def OutputsData_def e)
next
  assume a: "mset (ManagedResources m') = mset (ManagedResources m) \<and> distinct (map res_Name (ManagedResources m))"
  have e: "makeData row (makeObjs res_Name obj (ManagedResources m')) = makeData row (makeObjs res_Name obj (ManagedResources m))"
    for row obj
    using a data_perm [of "ManagedResources m'" "ManagedResources m" res_Name row obj] by simp
  show "GetManagedResourcesTable m' baseUrl modulePath =
      GetManagedResourcesTable m baseUrl modulePath"
    by (simp only: GetManagedResourcesTable_def ManagedResourcesData_def resourceObjs_def e)
next
  assume a: "mset (DataResources m') = mset (DataResources m) \<and> distinct (map res_Name (DataResources m))"
  have e: "makeData row (makeObjs res_Name obj (DataResources m')) = makeData row (makeObjs res_Name obj (DataResources m))"
    for row obj
    using a data_perm [of "DataResources m'" "DataResources m" res_Name row obj] by simp
  show "GetDataSourcesTable m' baseUrl modulePath =
      GetDataSourcesTable m baseUrl modulePath"
    by (simp only: GetDataSourcesTable_def DataSourcesData_def resourceObjs_def e)
next
  assume a: "mset (ModuleCalls m') = mset (ModuleCalls m) \<and> distinct (map call_Name (ModuleCalls m))"
  have e: "makeData row (makeObjs call_Name obj (ModuleCalls m')) = makeData row (makeObjs call_Name obj (ModuleCalls m))"
    for row obj
    using a data_perm [of "ModuleCalls m'" "ModuleCalls m" call_Name row obj] by simp
  show "GetModulesTable m' baseUrl modulePath = GetModulesTable m baseUrl modulePath"
    by (simp only: GetModulesTable_def ModulesData_def e)
qed

lemma example_names:
  "sorted_list_of_set
     (var_Name ` set [exampleVar ''zeta'' 1, exampleVar ''alpha'' 5, exampleVar ''mu'' 12]) =
   [''alpha'', ''mu'', ''zeta'']"
proof -
  have "var_Name ` set [exampleVar ''zeta'' 1, exampleVar ''alpha'' 5, exampleVar ''mu'' 12] =
      set [''zeta'', ''alpha'', ''mu'']"
    by (simp add: exampleVar_def)
  then show ?thesis
    by (simp only: sorted_list_of_set_sort_remdups) simp
qed

lemma GetVarsTable_example:
  "GetVarsTable
     (exampleModule [exampleVar ''zeta'' 1, exampleVar ''alpha'' 5, exampleVar ''mu'' 12])
     ''u'' ''m'' =
   ''| Variable | Type | Description | Code Position |\<newline>'' @
   ''| ---- | ------ | -------- | ------ |\<newline>'' @
   ''| alpha | string |  | [vars.tf: 5](u/m/vars.tf#L5) |\<newline>'' @
   ''| mu | string |  | [vars.tf: 12](u/m/vars.tf#L12) |\<newline>'' @
   ''| zeta | string |  | [vars.tf: 1](u/m/vars.tf#L1) |''"
  by (simp add: GetVarsTable_def VarsData_def makeData_def makeObjs_def getSortedKeys_def
      index_def exampleModule_def exampleVar_def location_def MarkdownTable_def
      showInt_def showNat.simps digitChar_def char_of_def bit_Suc_0_iff LF_def Let_def)

text \<open>The items \<open>zeta\<close>, \<open>alpha\<close>, \<open>mu\<close> are rendered in the order \<open>alpha\<close>, \<open>mu\<close>, \<open>zeta\<close>.\<close>

lemma rows_sorted_by_name_example:
  "mset [exampleVar ''alpha'' 5, exampleVar ''mu'' 12, exampleVar ''zeta'' 1] =
     mset [exampleVar ''zeta'' 1, exampleVar ''alpha'' 5, exampleVar ''mu'' 12] \<and>
   distinct (map var_Name [exampleVar ''zeta'' 1, exampleVar ''alpha'' 5, exampleVar ''mu'' 12]) \<and>
   map hd (VarsData
      (exampleModule [exampleVar ''zeta'' 1, exampleVar ''alpha'' 5, exampleVar ''mu'' 12])
      ''u'' ''m'') = [''alpha'', ''mu'', ''zeta''] \<and>
   GetVarsTable
     (exampleModule [exampleVar ''alpha'' 5, exampleVar ''mu'' 12, exampleVar ''zeta'' 1])
     ''u'' ''m'' =
   ''| Variable | Type | Description | Code Position |\<newline>'' @
   ''| ---- | ------ | -------- | ------ |\<newline>'' @
   ''| alpha | string |  | [vars.tf: 5](u/m/vars.tf#L5) |\<newline>'' @
   ''| mu | string |  | [vars.tf: 12](u/m/vars.tf#L12) |\<newline>'' @
   ''| zeta | string |  | [vars.tf: 1](u/m/vars.tf#L1) |''"
proof -
  have p: "mset [exampleVar ''alpha'' 5, exampleVar ''mu'' 12, exampleVar ''zeta'' 1] =
      mset [exampleVar ''zeta'' 1, exampleVar ''alpha'' 5, exampleVar ''mu'' 12]"
    by simp
  have d: "distinct (map var_Name
      [exampleVar ''zeta'' 1, exampleVar ''alpha'' 5, exampleVar ''mu'' 12])"
    by (simp add: exampleVar_def)
  show ?thesis
    using rows_sorted_by_name
      [of "exampleModule [exampleVar ''zeta'' 1, exampleVar ''alpha'' 5, exampleVar ''mu'' 12]"
        "''u''" "''m''"
        "exampleModule [exampleVar ''alpha'' 5, exampleVar ''mu'' 12, exampleVar ''zeta'' 1]"]
      p d example_names GetVarsTable_example
    by (simp add: exampleModule_def)
qed

text \<open>
  Claim C8 says that the rows do not depend on the order in which the items are visited.
  The map \<open>objs\<close> is keyed by the name alone, so of two resources with one name the one
  visited last overwrites the other: the same two resources give a different table in
  each order, and one of them is missing from both.
\<close>

theorem same_name_resources_order_dependent:
  "GetManagedResourcesTable
     (resourceModule [exampleResource ''aws_instance'' ''this'' 1,
                      exampleResource ''aws_s3_bucket'' ''this'' 9])
     ''u'' ''m'' =
   ''| Resource Name | Resource Type | Code Position |\<newline>'' @
   ''| ---- | -------- | ------ |\<newline>'' @
   ''| this | aws_s3_bucket | [main.tf: 9](u/m/main.tf#L9) |'' \<and>
   GetManagedResourcesTable
     (resourceModule [exampleResource ''aws_s3_bucket'' ''this'' 9,
                      exampleResource ''aws_instance'' ''this'' 1])
     ''u'' ''m'' =
   ''| Resource Name | Resource Type | Code Position |\<newline>'' @
   ''| ---- | -------- | ------ |\<newline>'' @
   ''| this | aws_instance | [main.tf: 1](u/m/main.tf#L1) |''"
  by (simp add: GetManagedResourcesTable_def ManagedResourcesData_def resourceObjs_def
      makeData_def makeObjs_def getSortedKeys_def index_def resourceModule_def
      exampleResource_def location_def MarkdownTable_def showInt_def showNat.simps
      digitChar_def char_of_def bit_Suc_0_iff LF_def Let_def)

end
